theory Spec2Isabelle
  imports Complex_Main "HOL-Library.Sublist" "HOL-Library.Log_Nat"
begin

section \<open>Python values used by \<open>core/reply_factory.py\<close>\<close>

text \<open>
  A Python \<open>str\<close> is a sequence of Unicode code points, so it is modelled as a list of
  code point numbers. ASCII literals of the source are written through \<open>py\<close>; the two
  glyphs of the score breakdown (U+2713 and U+2717) are given by their numbers.
\<close>

type_synonym pystr = "nat list"

definition py :: "string \<Rightarrow> pystr" where
  "py s = map of_char s"

text \<open>The code points for which \<open>str.isspace\<close> holds; \<open>str.strip()\<close> removes them
  from both ends.\<close>

definition isspace :: "nat \<Rightarrow> bool" where
  "isspace c \<longleftrightarrow>
     (9 \<le> c \<and> c \<le> 13) \<or> (28 \<le> c \<and> c \<le> 32) \<or> c = 133 \<or> c = 160 \<or> c = 5760 \<or>
     (8192 \<le> c \<and> c \<le> 8202) \<or> c = 8232 \<or> c = 8233 \<or> c = 8239 \<or> c = 8287 \<or> c = 12288"

definition strip :: "pystr \<Rightarrow> pystr" where
  "strip s = rev (dropWhile isspace (rev (dropWhile isspace s)))"

text \<open>\<open>str(n)\<close> for an integer: decimal digits, with a minus sign when negative.\<close>

fun str_nat :: "nat \<Rightarrow> pystr" where
  "str_nat n = (if n < 10 then [48 + n] else str_nat (n div 10) @ [48 + n mod 10])"

declare str_nat.simps [simp del]

definition str_int :: "int \<Rightarrow> pystr" where
  "str_int i = (if i < 0 then 45 # str_nat (nat (- i)) else str_nat (nat i))"

datatype exn = IndexError

text \<open>List subscription \<open>xs[i]\<close>: a negative index counts from the end, and an index
  outside \<open>[-len, len)\<close> raises.\<close>

definition getitem :: "'a list \<Rightarrow> int \<Rightarrow> exn + 'a" where
  "getitem xs i =
     (if 0 \<le> i \<and> i < int (length xs) then Inr (xs ! nat i)
      else if i < 0 \<and> - int (length xs) \<le> i then Inr (xs ! nat (int (length xs) + i))
      else Inl IndexError)"

section \<open>Data model\<close>

text \<open>An entry of \<open>PYTHON_QUESTION_LIST\<close>. The list itself and \<open>BOT_WELCOME_MESSAGE\<close>
  live in \<open>core/constants.py\<close>; every function below takes them as parameters.\<close>

record question =
  question_text :: pystr
  options :: "pystr list"
  answer :: pystr

text \<open>The dictionary appended to \<open>session['quiz_answers']\<close>.\<close>

record quiz_answer =
  question_id :: int
  user_answer :: pystr
  correct_answer :: pystr
  is_correct :: bool

text \<open>
  The session dictionary, restricted to the two keys the module touches. For each key
  the outer \<open>option\<close> says whether the key is present; \<open>current_question_id\<close> may be
  present and hold \<open>None\<close>. \<open>saves\<close> counts the calls of \<open>session.save()\<close>.
\<close>

record session =
  current_question_id :: "int option option"
  quiz_answers :: "quiz_answer list option"
  saves :: nat

text \<open>\<open>session.get("current_question_id")\<close>: \<open>None\<close> for a missing key.\<close>

definition session_get_id :: "session \<Rightarrow> int option" where
  "session_get_id s = (case current_question_id s of None \<Rightarrow> None | Some v \<Rightarrow> v)"

definition save :: "session \<Rightarrow> session" where
  "save s = s\<lparr>saves := Suc (saves s)\<rparr>"

section \<open>\<open>record_current_answer\<close>\<close>

text \<open>The missing key \<open>'quiz_answers'\<close> is first set to the empty list, so the
  list appended to is the stored one, or \<open>[]\<close> when there was none.\<close>

definition record_current_answer ::
  "question list \<Rightarrow> pystr \<Rightarrow> int option \<Rightarrow> session \<Rightarrow> (bool \<times> pystr) \<times> session" where
  "record_current_answer qs ans cur s =
     (case cur of
        None \<Rightarrow> ((False, py ''No active question''), s)
      | Some cid \<Rightarrow>
          if cid < 0 then ((False, py ''No active question''), s)
          else if cid \<ge> int (length qs) then ((False, py ''Invalid question ID''), s)
          else
            let correct = answer (qs ! nat cid);
                ok = (strip ans = strip correct);
                answers = (case quiz_answers s of None \<Rightarrow> [] | Some xs \<Rightarrow> xs)
            in ((True, []),
                s\<lparr>quiz_answers :=
                    Some (answers @
                      [\<lparr>question_id = cid, user_answer = ans,
                        correct_answer = correct, is_correct = ok\<rparr>])\<rparr>))"

section \<open>\<open>get_next_question\<close>\<close>

text \<open>The loop over \<open>enumerate(next_question['options'], 1)\<close>, appending one line per
  option to the text built so far.\<close>

fun add_options :: "pystr \<Rightarrow> nat \<Rightarrow> pystr list \<Rightarrow> pystr" where
  "add_options msg i [] = msg"
| "add_options msg i (opt # opts) =
     add_options (msg @ str_int (int i) @ py ''. '' @ opt @ [10]) (Suc i) opts"

definition get_next_question :: "question list \<Rightarrow> int option \<Rightarrow> exn + (pystr option \<times> int)" where
  "get_next_question qs cur =
     (let cid = (case cur of None \<Rightarrow> - 1 | Some c \<Rightarrow> c);
          next_question_id = cid + 1
      in if next_question_id < int (length qs) then
           (case getitem qs next_question_id of
              Inl e \<Rightarrow> Inl e
            | Inr next_question \<Rightarrow>
                Inr (Some (add_options (question_text next_question @ [10, 10] @ py ''Options:'' @ [10])
                             1 (options next_question)),
                     next_question_id))
         else Inr (None, - 1))"

section \<open>Floating point\<close>

text \<open>
  A Python \<open>float\<close> is an IEEE 754 double. A finite double is a rational number, and
  each arithmetic operation returns the exact result rounded to the nearest number with a
  53-bit significand, ties going to the even significand. \<open>fl\<close> is that rounding.
  The exponent range is not modelled: the values below lie between \<open>1 / total\<close> and
  \<open>100\<close>, far from overflow and from the subnormal numbers.
\<close>

definition round_half_even :: "rat \<Rightarrow> int" where
  "round_half_even x =
     (let f = \<lfloor>x\<rfloor>; d = x - of_int f
      in if d < 1 / 2 then f else if 1 / 2 < d then f + 1 else if even f then f else f + 1)"

text \<open>The binary exponent \<open>\<lfloor>log\<^sub>2 x\<rfloor>\<close> of a positive rational.\<close>

definition expo :: "rat \<Rightarrow> int" where
  "expo x =
     (let (p, q) = quotient_of x; k = bitlen p - bitlen q
      in if 2 powi k \<le> x then k else k - 1)"

definition fl :: "rat \<Rightarrow> rat" where
  "fl x = (if x = 0 then 0
           else let u = 2 powi (expo \<bar>x\<bar> - 52) in of_int (round_half_even (x / u)) * u)"

text \<open>\<open>format(x, '.2f')\<close>: the exact value of the double rounded to two decimals,
  ties to even.\<close>

definition format_2f :: "rat \<Rightarrow> pystr" where
  "format_2f x =
     (let n = nat (round_half_even (\<bar>x\<bar> * 100))
      in (if x < 0 then [45] else []) @ str_nat (n div 100) @ [46] @
         [48 + n mod 100 div 10, 48 + n mod 10])"

section \<open>\<open>generate_final_response\<close>\<close>

text \<open>\<open>(correct_answers / total_questions) * 100\<close>: the true division of two
  integers gives the double nearest to the quotient, and the product with \<open>100\<close> is
  rounded again.\<close>

definition score_percentage :: "int \<Rightarrow> int \<Rightarrow> rat" where
  "score_percentage correct_answers total_questions =
     fl (fl (of_int correct_answers / of_int total_questions) * 100)"

text \<open>The loop over \<open>enumerate(session['quiz_answers'], 1)\<close>.\<close>

fun add_breakdown :: "pystr \<Rightarrow> nat \<Rightarrow> quiz_answer list \<Rightarrow> pystr" where
  "add_breakdown msg i [] = msg"
| "add_breakdown msg i (a # as) =
     add_breakdown
       (msg @ [10] @ py ''Q'' @ str_int (int i) @ py '': '' @
        [if is_correct a then 10003 else 10007] @ py '' Your answer: '' @ user_answer a)
       (Suc i) as"

definition performance :: "rat \<Rightarrow> pystr" where
  "performance p =
     (if p = 100 then py ''Excellent! Perfect score!''
      else if p \<ge> 80 then
        py ''Great job! You have a strong understanding of Python.''
      else if p \<ge> 60 then
        py ''Good effort. You're on the right track with Python.''
      else py ''Keep studying. There's room for improvement in your Python skills.'')"

definition generate_final_response :: "session \<Rightarrow> pystr" where
  "generate_final_response s =
     (case quiz_answers s of
        None \<Rightarrow> py ''No quiz answers found. Please complete the quiz.''
      | Some answers \<Rightarrow>
          if answers = [] then py ''No quiz answers found. Please complete the quiz.''
          else
            let correct_answers = sum_list (map (\<lambda>a. 1 :: int) (filter is_correct answers));
                total_questions = int (length answers);
                p = score_percentage correct_answers total_questions;
                result_message = py ''Quiz Completed!'' @ [10, 10];
                result_message = result_message @ py ''Your Score: '' @ str_int correct_answers @
                  py ''/'' @ str_int total_questions @ py '' ('' @ format_2f p @
                  py ''%)'' @ [10, 10];
                result_message = result_message @ performance p;
                result_message = result_message @ [10, 10] @ py ''Detailed Breakdown:''
            in add_breakdown result_message 1 answers)"

section \<open>\<open>generate_bot_responses\<close>\<close>

text \<open>Truth value of \<open>next_question\<close> in \<open>if next_question:\<close>: \<open>None\<close> and the
  empty string are false.\<close>

definition truthy :: "pystr option \<Rightarrow> bool" where
  "truthy t = (case t of None \<Rightarrow> False | Some x \<Rightarrow> x \<noteq> [])"

text \<open>
  The result is the list of responses, or the exception that escapes, together with the
  session as the call leaves it. An entry of the list is \<open>None\<close> when
  \<open>get_next_question\<close> returned no text on the first interaction.
\<close>

definition generate_bot_responses ::
  "question list \<Rightarrow> pystr \<Rightarrow> pystr \<Rightarrow> session \<Rightarrow> (exn + pystr option list) \<times> session" where
  "generate_bot_responses qs welcome message s =
     (let cur = session_get_id s
      in case cur of
           None \<Rightarrow>
             (case get_next_question qs None of
                Inl e \<Rightarrow> (Inl e, s)
              | Inr (first_question, first_question_id) \<Rightarrow>
                  (Inr [Some welcome, first_question],
                   save (s\<lparr>current_question_id := Some (Some first_question_id)\<rparr>)))
         | Some _ \<Rightarrow>
             (let ((success, error), s1) = record_current_answer qs message cur s
              in if \<not> success then (Inr [Some error], s1)
                 else
                   (case get_next_question qs cur of
                      Inl e \<Rightarrow> (Inl e, s1)
                    | Inr (next_question, next_question_id) \<Rightarrow>
                        if truthy next_question then
                          (Inr [next_question],
                           save (s1\<lparr>current_question_id := Some (Some next_question_id)\<rparr>))
                        else
                          (Inr [Some (generate_final_response s1)],
                           save (s1\<lparr>current_question_id := Some None\<rparr>)))))"

text \<open>A conversation: the calls made for a list of messages, one after the other on the
  same session.\<close>

fun run ::
  "question list \<Rightarrow> pystr \<Rightarrow> pystr list \<Rightarrow> session \<Rightarrow> (exn + pystr option list) list \<times> session" where
  "run qs welcome [] s = ([], s)"
| "run qs welcome (m # ms) s =
     (let (r, s1) = generate_bot_responses qs welcome m s;
          (rs, s2) = run qs welcome ms s1
      in (r # rs, s2))"

definition fresh :: session where
  "fresh = \<lparr>current_question_id = None, quiz_answers = None, saves = 0\<rparr>"

section \<open>Definitions used to state the properties\<close>

text \<open>The rendering of a question as the specification words it: the question text, the
  separator, then one line \<open>"{index}. {option}\n"\<close> per option, numbered from 1, in list
  order.\<close>

definition option_line :: "nat \<times> pystr \<Rightarrow> pystr" where
  "option_line p = str_int (int (fst p)) @ py ''. '' @ snd p @ [10]"

definition rendered_question :: "question \<Rightarrow> pystr" where
  "rendered_question q =
     question_text q @ [10, 10] @ py ''Options:'' @ [10] @
     concat (map option_line (zip [1 ..< Suc (length (options q))] (options q)))"

text \<open>The records of a session, the empty list standing for a missing key.\<close>

definition answers_of :: "session \<Rightarrow> quiz_answer list" where
  "answers_of s = (case quiz_answers s of None \<Rightarrow> [] | Some xs \<Rightarrow> xs)"

text \<open>The stored id is absent, \<open>None\<close>, or an index into the question list.\<close>

definition id_valid :: "question list \<Rightarrow> session \<Rightarrow> bool" where
  "id_valid qs s =
     (case session_get_id s of None \<Rightarrow> True | Some k \<Rightarrow> 0 \<le> k \<and> k < int (length qs))"

text \<open>The record that an answer to question \<open>i\<close> leaves in the session.\<close>

definition answer_record :: "question list \<Rightarrow> nat \<Rightarrow> pystr \<Rightarrow> quiz_answer" where
  "answer_record qs i ans =
     \<lparr>question_id = int i, user_answer = ans, correct_answer = answer (qs ! i),
      is_correct = (strip ans = strip (answer (qs ! i)))\<rparr>"

text \<open>One line of the breakdown: the number of the record, the glyph for a right or
  a wrong answer, and the answer as the user sent it.\<close>

definition breakdown_line :: "nat \<times> quiz_answer \<Rightarrow> pystr" where
  "breakdown_line p =
     [10] @ py ''Q'' @ str_int (int (fst p)) @ py '': '' @
     [if is_correct (snd p) then 10003 else 10007] @ py '' Your answer: '' @
     user_answer (snd p)"

text \<open>The counts and the percentage that \<open>generate_final_response\<close> computes from the
  stored records.\<close>

definition correct_count :: "session \<Rightarrow> nat" where
  "correct_count s = length (filter is_correct (answers_of s))"

definition total_count :: "session \<Rightarrow> nat" where
  "total_count s = length (answers_of s)"

definition percentage :: "session \<Rightarrow> rat" where
  "percentage s = score_percentage (int (correct_count s)) (int (total_count s))"

text \<open>Two records of the example question, and a session after 160 passes of the
  one-question quiz, 23 of them answered correctly.\<close>

definition example_right :: quiz_answer where
  "example_right =
     \<lparr>question_id = 0, user_answer = py ''4'', correct_answer = py ''4'', is_correct = True\<rparr>"

definition example_wrong :: quiz_answer where
  "example_wrong =
     \<lparr>question_id = 0, user_answer = py ''3'', correct_answer = py ''4'', is_correct = False\<rparr>"

definition example_long_session :: session where
  "example_long_session =
     \<lparr>current_question_id = Some None,
      quiz_answers = Some (replicate 23 example_right @ replicate 137 example_wrong),
      saves = 320\<rparr>"

text \<open>The question list of the scenario in the specification, and a welcome message.\<close>

definition example_question :: question where
  "example_question =
     \<lparr>question_text = py ''2+2?'', options = [py ''3'', py ''4''], answer = py ''4''\<rparr>"

definition example_welcome :: pystr where
  "example_welcome = py ''Welcome''"

section \<open>Strings\<close>

lemma py_Nil: "py [] = []"
  by (simp add: py_def)

lemma py_Cons: "py (c # cs) = of_char c # py cs"
  by (simp add: py_def)

lemmas py_simps = py_Nil py_Cons

lemma str_nat_digit: "n < 10 \<Longrightarrow> str_nat n = [48 + n]"
  by (simp add: str_nat.simps)

lemma str_nat_not_Nil [simp]: "str_nat n \<noteq> []"
  by (subst str_nat.simps) simp

text \<open>\<open>strip\<close> removes white space and nothing else, and what it returns neither starts
  nor ends with white space.\<close>

lemma strip_decompose:
  "\<exists>a b. s = a @ strip s @ b \<and> (\<forall>c \<in> set a. isspace c) \<and> (\<forall>c \<in> set b. isspace c)"
proof -
  let ?t = "dropWhile isspace s"
  have s: "s = takeWhile isspace s @ ?t"
    by simp
  have "rev (rev ?t) = rev (takeWhile isspace (rev ?t) @ dropWhile isspace (rev ?t))"
    by (simp only: takeWhile_dropWhile_id)
  then have "?t = strip s @ rev (takeWhile isspace (rev ?t))"
    unfolding rev_append rev_rev_ident strip_def .
  then have "s = takeWhile isspace s @ strip s @ rev (takeWhile isspace (rev ?t))"
    using s by simp
  moreover have "\<forall>c \<in> set (takeWhile isspace s). isspace c"
    by (auto dest: set_takeWhileD)
  moreover have "\<forall>c \<in> set (rev (takeWhile isspace (rev ?t))). isspace c"
    by (auto dest: set_takeWhileD)
  ultimately show ?thesis
    by blast
qed

lemma strip_ends:
  "strip s \<noteq> [] \<Longrightarrow> \<not> isspace (hd (strip s)) \<and> \<not> isspace (last (strip s))"
proof -
  assume ne: "strip s \<noteq> []"
  let ?t = "dropWhile isspace s"
  let ?r = "dropWhile isspace (rev ?t)"
  have r: "?r \<noteq> []"
    using ne by (simp add: strip_def)
  then have a: "\<not> isspace (hd ?r)"
    by (rule hd_dropWhile)
  have "?r = drop (length (takeWhile isspace (rev ?t))) (rev ?t)"
    by (simp add: dropWhile_eq_drop)
  then have "rev ?r = take (length ?t - length (takeWhile isspace (rev ?t))) ?t"
    by (simp add: rev_drop)
  then have pre: "prefix (rev ?r) ?t"
    by (metis take_is_prefix)
  have t: "?t \<noteq> []"
    using r by (cases ?t) simp_all
  obtain zs where zs: "?t = rev ?r @ zs"
    using pre by (auto simp: prefix_def)
  have "rev ?r \<noteq> []"
    using r by simp
  then have "hd (rev ?r @ zs) = hd (rev ?r)"
    by (rule hd_append2)
  then have "hd (rev ?r) = hd ?t"
    using zs by metis
  moreover have "\<not> isspace (hd ?t)"
    using t by (rule hd_dropWhile)
  ultimately have b: "\<not> isspace (hd (rev ?r))"
    by simp
  show ?thesis
    using a b r by (simp add: strip_def hd_rev last_rev)
qed

section \<open>The rendered question\<close>

lemma add_options_concat:
  "add_options msg i opts =
     msg @ concat (map option_line (zip [i ..< i + length opts] opts))"
proof (induction opts arbitrary: msg i)
  case Nil
  show ?case by simp
next
  case (Cons opt opts)
  have "i < i + length (opt # opts)"
    by simp
  from upt_conv_Cons [OF this]
  have "[i ..< i + length (opt # opts)] = i # [Suc i ..< Suc i + length opts]"
    by simp
  then show ?case
    by (simp add: Cons.IH option_line_def)
qed

lemma add_options_rendered [simp]:
  "add_options (question_text q @ 10 # 10 # py ''Options:'' @ [10]) (Suc 0) (options q) =
     rendered_question q"
  by (simp add: add_options_concat rendered_question_def)

lemma rendered_question_not_Nil [simp]: "rendered_question q \<noteq> []"
  by (simp add: rendered_question_def)

lemma get_next_question_from:
  assumes "- 1 \<le> c"
  shows "get_next_question qs (Some c) =
    (if c + 1 < int (length qs) then Inr (Some (rendered_question (qs ! nat (c + 1))), c + 1)
     else Inr (None, - 1))"
  using assms by (simp add: get_next_question_def getitem_def Let_def)

lemma get_next_question_None:
  "get_next_question qs None =
    (if qs \<noteq> [] then Inr (Some (rendered_question (qs ! 0)), 0) else Inr (None, - 1))"
  by (simp add: get_next_question_def getitem_def Let_def)

section \<open>One call of the dispatcher\<close>

lemma session_get_id_update [simp]:
  "session_get_id (s\<lparr>current_question_id := Some v\<rparr>) = v"
  "session_get_id (s\<lparr>quiz_answers := a\<rparr>) = session_get_id s"
  "session_get_id (save s) = session_get_id s"
  by (simp_all add: session_get_id_def save_def)

lemma answers_of_update [simp]:
  "answers_of (s\<lparr>quiz_answers := Some xs\<rparr>) = xs"
  "answers_of (s\<lparr>current_question_id := v\<rparr>) = answers_of s"
  "answers_of (save s) = answers_of s"
  by (simp_all add: answers_of_def save_def)

lemma saves_save [simp]: "saves (save s) = Suc (saves s)"
  by (simp add: save_def)

lemma current_question_id_save [simp]: "current_question_id (save s) = current_question_id s"
  by (simp add: save_def)

lemma record_fails:
  assumes "c < 0 \<or> int (length qs) \<le> c"
  shows "record_current_answer qs m (Some c) s =
    ((False, if c < 0 then py ''No active question'' else py ''Invalid question ID''), s)"
  using assms by (auto simp: record_current_answer_def)

lemma record_succeeds:
  assumes "0 \<le> c" and "c < int (length qs)"
  shows "record_current_answer qs m (Some c) s =
    ((True, []), s\<lparr>quiz_answers := Some (answers_of s @ [answer_record qs (nat c) m])\<rparr>)"
  using assms by (simp add: record_current_answer_def answers_of_def answer_record_def Let_def)

lemma dispatch_cold:
  assumes "session_get_id s = None"
  shows "generate_bot_responses qs w m s =
    (if qs \<noteq> []
     then (Inr [Some w, Some (rendered_question (qs ! 0))],
           save (s\<lparr>current_question_id := Some (Some 0)\<rparr>))
     else (Inr [Some w, None], save (s\<lparr>current_question_id := Some (Some (- 1))\<rparr>)))"
  using assms by (simp add: generate_bot_responses_def get_next_question_None)

lemma dispatch_fails:
  assumes "session_get_id s = Some c" and "c < 0 \<or> int (length qs) \<le> c"
  shows "generate_bot_responses qs w m s =
    (Inr [Some (if c < 0 then py ''No active question'' else py ''Invalid question ID'')], s)"
  using assms by (simp add: generate_bot_responses_def record_fails)

lemma dispatch_answer:
  assumes "session_get_id s = Some c" and "0 \<le> c" and "c < int (length qs)"
  shows "generate_bot_responses qs w m s =
    (let s1 = s\<lparr>quiz_answers := Some (answers_of s @ [answer_record qs (nat c) m])\<rparr>
     in if c + 1 < int (length qs)
        then (Inr [Some (rendered_question (qs ! nat (c + 1)))],
              save (s1\<lparr>current_question_id := Some (Some (c + 1))\<rparr>))
        else (Inr [Some (generate_final_response s1)],
              save (s1\<lparr>current_question_id := Some None\<rparr>)))"
  using assms
  by (simp add: generate_bot_responses_def record_succeeds get_next_question_from
      truthy_def Let_def)

lemma dispatch_no_exception: "fst (generate_bot_responses qs w m s) \<noteq> Inl e"
proof (cases "session_get_id s")
  case None
  then show ?thesis
    by (simp add: dispatch_cold)
next
  case (Some c)
  show ?thesis
  proof (cases "0 \<le> c \<and> c < int (length qs)")
    case True
    then show ?thesis
      using Some by (simp add: dispatch_answer Let_def)
  next
    case False
    then have "c < 0 \<or> int (length qs) \<le> c"
      by auto
    then show ?thesis
      using Some by (simp add: dispatch_fails)
  qed
qed

section \<open>Sequences of calls\<close>

lemma run_append:
  "run qs w (xs @ ys) s =
    (fst (run qs w xs s) @ fst (run qs w ys (snd (run qs w xs s))),
     snd (run qs w ys (snd (run qs w xs s))))"
  by (induction xs arbitrary: s) (simp_all add: split_beta Let_def)

lemma length_run [simp]: "length (fst (run qs w ms s)) = length ms"
  by (induction ms arbitrary: s) (simp_all add: split_beta Let_def)

lemma dispatch_answers_prefix:
  "prefix (answers_of s) (answers_of (snd (generate_bot_responses qs w m s)))"
proof (cases "session_get_id s")
  case None
  then show ?thesis
    by (simp add: dispatch_cold)
next
  case (Some c)
  show ?thesis
  proof (cases "0 \<le> c \<and> c < int (length qs)")
    case True
    then show ?thesis
      using Some by (simp add: dispatch_answer Let_def)
  next
    case False
    then have "c < 0 \<or> int (length qs) \<le> c"
      by auto
    then show ?thesis
      using Some by (simp add: dispatch_fails)
  qed
qed

lemma run_answers_prefix: "prefix (answers_of s) (answers_of (snd (run qs w ms s)))"
proof (induction ms arbitrary: s)
  case Nil
  show ?case by simp
next
  case (Cons m ms)
  have "prefix (answers_of s) (answers_of (snd (generate_bot_responses qs w m s)))"
    by (rule dispatch_answers_prefix)
  also have "prefix (answers_of (snd (generate_bot_responses qs w m s)))
      (answers_of (snd (run qs w ms (snd (generate_bot_responses qs w m s)))))"
    by (rule Cons.IH)
  finally show ?case
    by (simp add: split_beta Let_def)
qed

lemma dispatch_id_valid:
  assumes "qs \<noteq> []" and "id_valid qs s"
  shows "id_valid qs (snd (generate_bot_responses qs w m s))"
proof (cases "session_get_id s")
  case None
  then show ?thesis
    using assms(1) by (simp add: dispatch_cold id_valid_def)
next
  case (Some c)
  with assms(2) have "0 \<le> c" and "c < int (length qs)"
    by (simp_all add: id_valid_def)
  then show ?thesis
    using Some by (simp add: dispatch_answer Let_def id_valid_def)
qed

lemma run_id_valid:
  assumes "qs \<noteq> []" and "id_valid qs s"
  shows "id_valid qs (snd (run qs w ms s))"
  using assms(2)
proof (induction ms arbitrary: s)
  case Nil
  then show ?case by simp
next
  case (Cons m ms)
  have "id_valid qs (snd (generate_bot_responses qs w m s))"
    using assms(1) Cons.prems by (rule dispatch_id_valid)
  then have "id_valid qs (snd (run qs w ms (snd (generate_bot_responses qs w m s))))"
    by (rule Cons.IH)
  then show ?case
    by (simp add: split_beta Let_def)
qed

lemma run_in_progress:
  assumes "session_get_id s = Some (int k)" and "k + length ms < length qs"
  shows "fst (run qs w ms s) =
      map (\<lambda>j. Inr [Some (rendered_question (qs ! j))]) [Suc k ..< Suc k + length ms] \<and>
    session_get_id (snd (run qs w ms s)) = Some (int (k + length ms)) \<and>
    answers_of (snd (run qs w ms s)) =
      answers_of s @ map (\<lambda>(i, m). answer_record qs i m) (zip [k ..< k + length ms] ms) \<and>
    saves (snd (run qs w ms s)) = saves s + length ms"
  using assms
proof (induction ms arbitrary: k s)
  case Nil
  then show ?case by simp
next
  case (Cons m ms)
  let ?s1 = "save (s\<lparr>quiz_answers := Some (answers_of s @ [answer_record qs k m]),
      current_question_id := Some (Some (int k + 1))\<rparr>)"
  have step: "generate_bot_responses qs w m s =
      (Inr [Some (rendered_question (qs ! Suc k))], ?s1)"
    using Cons.prems by (simp add: dispatch_answer Let_def nat_add_distrib)
  have id1: "session_get_id ?s1 = Some (int (Suc k))"
    by simp
  have len1: "Suc k + length ms < length qs"
    using Cons.prems by simp
  note ih = Cons.IH [OF id1 len1]
  have up: "[i ..< i + length (m # ms)] = i # [Suc i ..< Suc i + length ms]" for i
    using upt_conv_Cons [of i "i + length (m # ms)"] by simp
  note up1 = up [of "Suc k"] and up2 = up [of k]
  show ?case
    unfolding up1 up2 using ih by (simp add: step split_beta Let_def del: upt_Suc)
qed

section \<open>The final response and the end of a pass\<close>

lemma add_breakdown_prefix: "prefix msg (add_breakdown msg i as)"
proof (induction as arbitrary: msg i)
  case Nil
  show ?case by simp
next
  case (Cons a as)
  let ?m = "msg @ [10] @ py ''Q'' @ str_int (int i) @ py '': '' @
      [if is_correct a then 10003 else 10007] @ py '' Your answer: '' @ user_answer a"
  have "prefix msg ?m"
    by simp
  also have "prefix ?m (add_breakdown ?m (Suc i) as)"
    by (rule Cons.IH)
  finally show ?case
    by simp
qed

lemma final_response_answers_of:
  "answers_of a = answers_of b \<Longrightarrow> generate_final_response a = generate_final_response b"
  by (cases "quiz_answers a"; cases "quiz_answers b")
     (simp_all add: generate_final_response_def answers_of_def)

lemma final_response_unfold:
  assumes "quiz_answers s = Some xs" and "xs \<noteq> []"
  shows "generate_final_response s =
     add_breakdown
       (py ''Quiz Completed!'' @ [10, 10] @ py ''Your Score: '' @
        str_int (sum_list (map (\<lambda>a. 1) (filter is_correct xs))) @ py ''/'' @
        str_int (int (length xs)) @ py '' ('' @
        format_2f (score_percentage (sum_list (map (\<lambda>a. 1) (filter is_correct xs)))
                     (int (length xs))) @
        py ''%)'' @ [10, 10] @
        performance (score_percentage (sum_list (map (\<lambda>a. 1) (filter is_correct xs)))
                       (int (length xs))) @
        [10, 10] @ py ''Detailed Breakdown:'') 1 xs"
  unfolding generate_final_response_def assms(1) option.case Let_def
  using assms(2) by (simp only: if_False append_assoc)

lemma final_response_header:
  assumes "answers_of s \<noteq> []"
  shows "prefix (py ''Quiz Completed!'') (generate_final_response s)"
proof -
  obtain xs where xs: "quiz_answers s = Some xs" "xs \<noteq> []"
    using assms by (cases "quiz_answers s") (simp_all add: answers_of_def)
  from final_response_unfold [OF xs]
  obtain rest where r: "generate_final_response s =
      add_breakdown (py ''Quiz Completed!'' @ rest) 1 xs"
    by blast
  have "prefix (py ''Quiz Completed!'') (py ''Quiz Completed!'' @ rest)"
    by simp
  also have "prefix (py ''Quiz Completed!'' @ rest) (add_breakdown (py ''Quiz Completed!'' @ rest) 1 xs)"
    by (rule add_breakdown_prefix)
  finally show ?thesis
    unfolding r .
qed

lemma pass_completes:
  assumes "session_get_id s = Some (int k)" and "Suc k = length qs"
  shows "generate_bot_responses qs w m s =
    (Inr [Some (generate_final_response
            (s\<lparr>quiz_answers := Some (answers_of s @ [answer_record qs k m])\<rparr>))],
     save (s\<lparr>quiz_answers := Some (answers_of s @ [answer_record qs k m]),
       current_question_id := Some None\<rparr>))"
proof -
  have "0 \<le> int k" and "int k < int (length qs)" and "\<not> int k + 1 < int (length qs)"
    using assms(2) by simp_all
  from dispatch_answer [OF assms(1) this(1,2), of w m] this(3) show ?thesis
    by (simp add: Let_def)
qed

section \<open>Rounding\<close>

lemma rhe_cases:
  "round_half_even x = \<lfloor>x\<rfloor> \<or> round_half_even x = \<lfloor>x\<rfloor> + 1"
  by (simp add: round_half_even_def Let_def)

lemma rhe_upper: "of_int (round_half_even x) \<le> x + 1 / 2"
  by (simp add: round_half_even_def Let_def) linarith

lemma rhe_lower: "x - 1 / 2 \<le> of_int (round_half_even x)"
  by (simp add: round_half_even_def Let_def) linarith

lemma rhe_of_int [simp]: "round_half_even (of_int n) = n"
  by (simp add: round_half_even_def)

lemma rhe_mono:
  assumes "x \<le> y"
  shows "round_half_even x \<le> round_half_even y"
proof (cases "\<lfloor>x\<rfloor> < \<lfloor>y\<rfloor>")
  case True
  have "round_half_even x \<le> \<lfloor>x\<rfloor> + 1"
    using rhe_cases [of x] by auto
  also have "\<dots> \<le> \<lfloor>y\<rfloor>"
    using True by simp
  also have "\<dots> \<le> round_half_even y"
    using rhe_cases [of y] by auto
  finally show ?thesis .
next
  case False
  then have eq: "\<lfloor>x\<rfloor> = \<lfloor>y\<rfloor>"
    using floor_mono [OF assms] by simp
  show ?thesis
    using assms by (auto simp: round_half_even_def Let_def eq)
qed

section \<open>The binary exponent\<close>

lemma bitlen_powi:
  assumes "0 < p"
  shows "(2::rat) powi (bitlen p - 1) \<le> of_int p" and "of_int p < (2::rat) powi (bitlen p)"
proof -
  from bitlen_bounds [OF assms]
  have a: "2 ^ nat (bitlen p - 1) \<le> p" and b: "p < 2 ^ nat (bitlen p)"
    by simp_all
  have pos: "1 \<le> bitlen p"
    using assms bitlen_eq_zero_iff [of p] bitlen_nonneg [of p] by linarith
  have "(of_int (2 ^ nat (bitlen p - 1)) :: rat) \<le> of_int p"
    using a by (simp only: of_int_le_iff)
  then show "(2::rat) powi (bitlen p - 1) \<le> of_int p"
    using pos by (simp add: power_int_def)
  have "(of_int p :: rat) < of_int (2 ^ nat (bitlen p))"
    using b by (simp only: of_int_less_iff)
  then show "of_int p < (2::rat) powi (bitlen p)"
    using pos by (simp add: power_int_def)
qed

lemma powi_less_cancel:
  assumes "(2::rat) powi a < 2 powi b"
  shows "a < b"
proof (rule ccontr)
  assume "\<not> a < b"
  then have "b \<le> a"
    by simp
  then have "(2::rat) powi b \<le> 2 powi a"
    by (rule power_int_increasing) simp
  with assms show False
    by simp
qed

lemma expo_bounds:
  assumes "0 < x"
  shows "2 powi expo x \<le> x" and "x < 2 powi (expo x + 1)"
proof -
  obtain p q where pq: "quotient_of x = (p, q)"
    by (cases "quotient_of x")
  then have q: "0 < q" and x: "x = of_int p / of_int q"
    by (simp_all add: quotient_of_denom_pos quotient_of_div)
  have p: "0 < p"
    using assms q x by (simp add: zero_less_divide_iff)
  let ?k = "bitlen p - bitlen q"
  have "x < 2 powi bitlen p / 2 powi (bitlen q - 1)"
    unfolding x using bitlen_powi [OF p] bitlen_powi [OF q] q p
    by (intro frac_less) simp_all
  also have "\<dots> = 2 powi (bitlen p - (bitlen q - 1))"
    by (rule power_int_diff [symmetric]) simp
  also have "bitlen p - (bitlen q - 1) = ?k + 1"
    by simp
  finally have up: "x < 2 powi (?k + 1)" .
  have "?k - 1 = bitlen p - 1 - bitlen q"
    by simp
  then have "(2::rat) powi (?k - 1) = 2 powi (bitlen p - 1 - bitlen q)"
    by (rule arg_cong)
  also have "\<dots> = 2 powi (bitlen p - 1) / 2 powi bitlen q"
    by (rule power_int_diff) simp
  also have "\<dots> < x"
    unfolding x using bitlen_powi [OF p] bitlen_powi [OF q] q p
    by (intro frac_less2) simp_all
  finally have low: "2 powi (?k - 1) < x" .
  have e: "expo x = (if 2 powi ?k \<le> x then ?k else ?k - 1)"
    by (simp add: expo_def pq)
  show "2 powi expo x \<le> x"
    using low by (simp add: e)
  show "x < 2 powi (expo x + 1)"
    using up by (auto simp: e)
qed

lemma expo_unique:
  assumes "0 < x" and "2 powi e \<le> x" and "x < 2 powi (e + 1)"
  shows "expo x = e"
proof -
  have "(2::rat) powi expo x < 2 powi (e + 1)"
    using expo_bounds(1) [OF assms(1)] assms(3) by simp
  then have a: "expo x < e + 1"
    by (rule powi_less_cancel)
  have "(2::rat) powi e < 2 powi (expo x + 1)"
    using expo_bounds(2) [OF assms(1)] assms(2) by simp
  then have "e < expo x + 1"
    by (rule powi_less_cancel)
  with a show ?thesis
    by simp
qed

lemma expo_mono:
  assumes "0 < x" and "x \<le> y"
  shows "expo x \<le> expo y"
proof -
  have "0 < y"
    using assms by simp
  have "(2::rat) powi expo x < 2 powi (expo y + 1)"
    using expo_bounds(1) [OF assms(1)] expo_bounds(2) [OF \<open>0 < y\<close>] assms(2) by simp
  then have "expo x < expo y + 1"
    by (rule powi_less_cancel)
  then show ?thesis
    by simp
qed

section \<open>Rounding to a double\<close>

lemma powi_split:
  "(2::rat) powi e = 2 ^ 52 * 2 powi (e - 52)"
  "(2::rat) powi (e + 1) = 2 ^ 53 * 2 powi (e - 52)"
proof -
  have "(2::rat) powi e = 2 powi (52 + (e - 52))"
    by simp
  also have "\<dots> = 2 powi 52 * 2 powi (e - 52)"
    by (rule power_int_add) simp
  finally show "(2::rat) powi e = 2 ^ 52 * 2 powi (e - 52)"
    by simp
  have "e + 1 = 53 + (e - 52)"
    by simp
  then have "(2::rat) powi (e + 1) = 2 powi (53 + (e - 52))"
    by (rule arg_cong)
  also have "\<dots> = 2 powi 53 * 2 powi (e - 52)"
    by (rule power_int_add) simp
  finally show "(2::rat) powi (e + 1) = 2 ^ 53 * 2 powi (e - 52)"
    by simp
qed

lemma fl_pos_def:
  assumes "0 < x"
  shows "fl x = of_int (round_half_even (x / 2 powi (expo x - 52))) * 2 powi (expo x - 52)"
  using assms by (simp add: fl_def Let_def)

lemma fl_significand:
  assumes "0 < x"
  shows "2 ^ 52 \<le> round_half_even (x / 2 powi (expo x - 52))"
    and "round_half_even (x / 2 powi (expo x - 52)) \<le> 2 ^ 53"
proof -
  let ?u = "(2::rat) powi (expo x - 52)"
  have u: "0 < ?u"
    by simp
  have "2 ^ 52 * ?u \<le> x"
    using expo_bounds(1) [OF assms] by (simp only: powi_split(1) [symmetric])
  then have "of_int (2 ^ 52) \<le> x / ?u"
    using u by (simp add: pos_le_divide_eq)
  from rhe_mono [OF this] show "2 ^ 52 \<le> round_half_even (x / ?u)"
    by (simp only: rhe_of_int)
  have "x \<le> 2 ^ 53 * ?u"
    using expo_bounds(2) [OF assms] by (simp only: powi_split(2) [symmetric])
  then have "x / ?u \<le> of_int (2 ^ 53)"
    using u by (simp add: pos_divide_le_eq)
  from rhe_mono [OF this] show "round_half_even (x / ?u) \<le> 2 ^ 53"
    by (simp only: rhe_of_int)
qed

lemma fl_binade:
  assumes "0 < x"
  shows "2 powi expo x \<le> fl x" and "fl x \<le> 2 powi (expo x + 1)"
proof -
  let ?u = "(2::rat) powi (expo x - 52)"
  let ?n = "round_half_even (x / ?u)"
  have u: "0 < ?u"
    by simp
  have "(of_int (2 ^ 52) :: rat) \<le> of_int ?n"
    using fl_significand(1) [OF assms] by (simp only: of_int_le_iff)
  then have "2 ^ 52 * ?u \<le> of_int ?n * ?u"
    using u by simp
  then show "2 powi expo x \<le> fl x"
    by (simp only: fl_pos_def [OF assms] powi_split(1) [symmetric])
  have "(of_int ?n :: rat) \<le> of_int (2 ^ 53)"
    using fl_significand(2) [OF assms] by (simp only: of_int_le_iff)
  then have "of_int ?n * ?u \<le> 2 ^ 53 * ?u"
    using u by simp
  then show "fl x \<le> 2 powi (expo x + 1)"
    by (simp only: fl_pos_def [OF assms] powi_split(2) [symmetric])
qed

lemma fl_pos:
  assumes "0 < x"
  shows "0 < fl x"
proof -
  have "(0::rat) < 2 powi expo x"
    by simp
  also have "\<dots> \<le> fl x"
    by (rule fl_binade(1) [OF assms])
  finally show ?thesis .
qed

lemma fl_nonneg: "0 \<le> x \<Longrightarrow> 0 \<le> fl x"
  using fl_pos [of x] by (cases "x = 0") (simp_all add: fl_def)

lemma fl_mono:
  assumes "0 \<le> x" and "x \<le> y"
  shows "fl x \<le> fl y"
proof (cases "x = 0")
  case True
  then show ?thesis
    using assms fl_nonneg [of y] by (simp add: fl_def)
next
  case False
  then have x: "0 < x" and y: "0 < y"
    using assms by simp_all
  show ?thesis
  proof (cases "expo x = expo y")
    case True
    let ?u = "(2::rat) powi (expo y - 52)"
    have "x / ?u \<le> y / ?u"
      using assms(2) by (simp add: divide_right_mono)
    then have "round_half_even (x / ?u) \<le> round_half_even (y / ?u)"
      by (rule rhe_mono)
    then have "(of_int (round_half_even (x / ?u)) :: rat) * ?u \<le> of_int (round_half_even (y / ?u)) * ?u"
      by simp
    then show ?thesis
      by (simp only: fl_pos_def [OF x] fl_pos_def [OF y] True)
  next
    case False
    then have "expo x + 1 \<le> expo y"
      using expo_mono [OF x assms(2)] by simp
    then have "(2::rat) powi (expo x + 1) \<le> 2 powi expo y"
      by (rule power_int_increasing) simp
    then show ?thesis
      using fl_binade(2) [OF x] fl_binade(1) [OF y] by simp
  qed
qed

lemma fl_error:
  assumes "0 < x"
  shows "\<bar>fl x - x\<bar> \<le> x / 2 ^ 53"
proof -
  let ?u = "(2::rat) powi (expo x - 52)"
  let ?n = "round_half_even (x / ?u)"
  have u: "0 < ?u"
    by simp
  have "\<bar>of_int ?n - x / ?u\<bar> \<le> 1 / 2"
    using rhe_upper [of "x / ?u"] rhe_lower [of "x / ?u"] by linarith
  then have "\<bar>of_int ?n - x / ?u\<bar> * ?u \<le> 1 / 2 * ?u"
    using u by (simp only: mult_le_cancel_right_pos)
  moreover have "\<bar>of_int ?n - x / ?u\<bar> * ?u = \<bar>(of_int ?n - x / ?u) * ?u\<bar>"
    by (rule abs_mult_pos) simp
  moreover have "(of_int ?n - x / ?u) * ?u = of_int ?n * ?u - x"
    using u by (simp add: left_diff_distrib)
  ultimately have "\<bar>fl x - x\<bar> \<le> ?u / 2"
    by (simp add: fl_pos_def [OF assms])
  also have "\<dots> = 2 powi expo x / 2 ^ 53"
    by (subst (2) powi_split(1)) simp
  also have "\<dots> \<le> x / 2 ^ 53"
    using expo_bounds(1) [OF assms] by (simp add: divide_right_mono)
  finally show ?thesis .
qed

lemma fl_100: "fl 100 = 100"
  by code_simp

lemma fl_1: "fl 1 = 1"
proof -
  have "fl (2 / 2) = 1"
    by code_simp
  then show ?thesis
    by simp
qed

section \<open>The score percentage\<close>

lemma score_percentage_range:
  assumes "0 \<le> c" and "c \<le> t" and "0 < t"
  shows "0 \<le> score_percentage c t" and "score_percentage c t \<le> 100"
proof -
  let ?q = "(of_int c / of_int t) :: rat"
  have q: "0 \<le> ?q" "?q \<le> 1"
    using assms by simp_all
  have f: "0 \<le> fl ?q"
    using q(1) by (rule fl_nonneg)
  have "fl ?q \<le> fl 1"
    using q by (rule fl_mono)
  then have g: "fl ?q * 100 \<le> 100"
    by (simp add: fl_1)
  have h: "0 \<le> fl ?q * 100"
    using f by simp
  show "0 \<le> score_percentage c t"
    unfolding score_percentage_def using h by (rule fl_nonneg)
  have "fl (fl ?q * 100) \<le> fl 100"
    using h g by (rule fl_mono)
  then show "score_percentage c t \<le> 100"
    by (simp add: score_percentage_def fl_100)
qed

lemma fl_error_le:
  assumes "0 \<le> x" and "x \<le> b"
  shows "\<bar>fl x - x\<bar> \<le> b / 2 ^ 53"
proof (cases "x = 0")
  case True
  then show ?thesis
    using assms by (simp add: fl_def)
next
  case False
  then have "0 < x"
    using assms by simp
  then have "\<bar>fl x - x\<bar> \<le> x / 2 ^ 53"
    by (rule fl_error)
  also have "\<dots> \<le> b / 2 ^ 53"
    using assms(2) by (simp add: divide_right_mono)
  finally show ?thesis .
qed

lemma score_percentage_error:
  assumes "0 \<le> c" and "c \<le> t" and "0 < t"
  shows "\<bar>score_percentage c t - 100 * of_int c / of_int t\<bar> \<le> 100 / 2 ^ 52"
proof -
  let ?q = "(of_int c / of_int t) :: rat"
  have q: "0 \<le> ?q" "?q \<le> 1"
    using assms by simp_all
  have f: "0 \<le> fl ?q"
    using q(1) by (rule fl_nonneg)
  have "fl ?q \<le> fl 1"
    using q by (rule fl_mono)
  then have g: "fl ?q * 100 \<le> 100"
    by (simp add: fl_1)
  have h: "0 \<le> fl ?q * 100"
    using f by simp
  have e1: "\<bar>fl (fl ?q * 100) - fl ?q * 100\<bar> \<le> 100 / 2 ^ 53"
    using h g by (rule fl_error_le)
  have e2: "\<bar>fl ?q - ?q\<bar> \<le> 1 / 2 ^ 53"
    using q by (rule fl_error_le)
  have "\<bar>fl (fl ?q * 100) - 100 * ?q\<bar> \<le> 100 / 2 ^ 53 + 100 * (1 / 2 ^ 53)"
    using e1 e2 by linarith
  then show ?thesis
    by (simp add: score_percentage_def)
qed

lemma score_percentage_all_correct:
  assumes "0 < t"
  shows "score_percentage t t = 100"
  using assms by (simp add: score_percentage_def fl_1 fl_100)

lemma percentage_mono:
  assumes "0 \<le> q" and "q \<le> r"
  shows "fl (fl q * 100) \<le> fl (fl r * 100)"
proof -
  have "0 \<le> fl q"
    using assms(1) by (rule fl_nonneg)
  moreover have "fl q \<le> fl r"
    using assms by (rule fl_mono)
  ultimately have "0 \<le> fl q * 100" and "fl q * 100 \<le> fl r * 100"
    by simp_all
  then show ?thesis
    by (rule fl_mono)
qed

lemma percentage_values:
  "fl (fl (4 / 5) * 100) = 80"
  "fl (fl (3 / 5) * 100) = 60"
  "fl (fl (4 / 5 - 1 / (5 * 2 ^ 48)) * 100) < 80"
  "fl (fl (3 / 5 - 1 / (5 * 2 ^ 48)) * 100) < 60"
  "fl (fl (1 - 1 / (5 * 2 ^ 48)) * 100) < 100"
  by code_simp+

lemma ratio_below:
  fixes c t :: int
  assumes "0 < t" and "t \<le> 2 ^ 48" and "5 * c < k * t"
  shows "(of_int c / of_int t :: rat) \<le> of_int k / 5 - 1 / (5 * 2 ^ 48)"
proof -
  have "5 * c + 1 \<le> k * t"
    using assms(3) by simp
  then have "(of_int (5 * c + 1) :: rat) \<le> of_int (k * t)"
    by (simp only: of_int_le_iff)
  then have a: "5 * of_int c + 1 \<le> of_int k * (of_int t :: rat)"
    by simp
  have "(of_int t :: rat) \<le> of_int (2 ^ 48)"
    using assms(2) by (simp only: of_int_le_iff)
  then have b: "(of_int t :: rat) / 2 ^ 48 \<le> 1"
    by simp
  have t: "(0::rat) < of_int t"
    using assms(1) by simp
  have "5 * (of_int c :: rat) \<le> of_int k * of_int t - of_int t / 2 ^ 48"
    using a b by linarith
  also have "\<dots> = (of_int k - 1 / 2 ^ 48) * of_int t"
    by (simp add: left_diff_distrib)
  finally have "(of_int c :: rat) \<le> (of_int k - 1 / 2 ^ 48) / 5 * of_int t"
    by simp
  then have "(of_int c :: rat) / of_int t \<le> (of_int k - 1 / 2 ^ 48) / 5"
    using t by (simp only: pos_divide_le_eq)
  also have "\<dots> = of_int k / 5 - 1 / (5 * 2 ^ 48)"
    by (simp add: diff_divide_distrib)
  finally show ?thesis .
qed

lemma ratio_above:
  fixes c t :: int
  assumes "0 < t" and "k * t \<le> 5 * c"
  shows "(of_int k / 5 :: rat) \<le> of_int c / of_int t"
proof -
  have "(of_int (k * t) :: rat) \<le> of_int (5 * c)"
    using assms(2) by (simp only: of_int_le_iff)
  then have "of_int k * (of_int t :: rat) \<le> 5 * of_int c"
    by simp
  moreover have "(0::rat) < of_int t"
    using assms(1) by simp
  ultimately show ?thesis
    by (simp add: pos_le_divide_eq)
qed

lemma score_thresholds:
  assumes "0 \<le> c" and "c \<le> t" and "0 < t" and "t \<le> 2 ^ 48"
  shows "score_percentage c t = 100 \<longleftrightarrow> c = t"
    and "80 \<le> score_percentage c t \<longleftrightarrow> 4 * t \<le> 5 * c"
    and "60 \<le> score_percentage c t \<longleftrightarrow> 3 * t \<le> 5 * c"
proof -
  let ?q = "(of_int c / of_int t) :: rat"
  have q: "0 \<le> ?q"
    using assms by simp
  have below: "score_percentage c t \<le> fl (fl (of_int k / 5 - 1 / (5 * 2 ^ 48)) * 100)"
    if "5 * c < k * t" for k
    unfolding score_percentage_def
    using q ratio_below [OF assms(3,4) that] by (rule percentage_mono)
  have above: "fl (fl (of_int k / 5) * 100) \<le> score_percentage c t"
    if "k * t \<le> 5 * c" and "0 \<le> k" for k
  proof -
    have "(0::rat) \<le> of_int k / 5"
      using that(2) by simp
    then show ?thesis
      unfolding score_percentage_def
      using ratio_above [OF assms(3) that(1)] by (rule percentage_mono)
  qed
  show "score_percentage c t = 100 \<longleftrightarrow> c = t"
  proof
    assume p: "score_percentage c t = 100"
    show "c = t"
    proof (rule ccontr)
      assume "c \<noteq> t"
      then have "5 * c < 5 * t"
        using assms(2) by simp
      from below [OF this] have "score_percentage c t < 100"
        using percentage_values(5) by simp
      with p show False
        by simp
    qed
  next
    assume "c = t"
    then show "score_percentage c t = 100"
      using assms(3) by (simp add: score_percentage_all_correct)
  qed
  show "80 \<le> score_percentage c t \<longleftrightarrow> 4 * t \<le> 5 * c"
  proof
    assume p: "80 \<le> score_percentage c t"
    show "4 * t \<le> 5 * c"
    proof (rule ccontr)
      assume "\<not> 4 * t \<le> 5 * c"
      then have "5 * c < 4 * t"
        by simp
      from below [OF this] have "score_percentage c t < 80"
        using percentage_values(3) by simp
      with p show False
        by simp
    qed
  next
    assume "4 * t \<le> 5 * c"
    from above [OF this] show "80 \<le> score_percentage c t"
      by (simp add: percentage_values(1))
  qed
  show "60 \<le> score_percentage c t \<longleftrightarrow> 3 * t \<le> 5 * c"
  proof
    assume p: "60 \<le> score_percentage c t"
    show "3 * t \<le> 5 * c"
    proof (rule ccontr)
      assume "\<not> 3 * t \<le> 5 * c"
      then have "5 * c < 3 * t"
        by simp
      from below [OF this] have "score_percentage c t < 60"
        using percentage_values(4) by simp
      with p show False
        by simp
    qed
  next
    assume "3 * t \<le> 5 * c"
    from above [OF this] show "60 \<le> score_percentage c t"
      by (simp add: percentage_values(2))
  qed
qed

lemma add_breakdown_concat:
  "add_breakdown msg i as =
     msg @ concat (map breakdown_line (zip [i ..< i + length as] as))"
proof (induction as arbitrary: msg i)
  case Nil
  show ?case by simp
next
  case (Cons a as)
  have "i < i + length (a # as)"
    by simp
  from upt_conv_Cons [OF this]
  have "[i ..< i + length (a # as)] = i # [Suc i ..< Suc i + length as]"
    by simp
  then show ?case
    by (simp add: Cons.IH breakdown_line_def)
qed

lemma count_correct:
  "sum_list (map (\<lambda>a. 1 :: int) (filter is_correct xs)) = int (length (filter is_correct xs))"
  by (induction xs) simp_all

section \<open>The text of the final response\<close>

lemma final_response_no_answers:
  "answers_of s = [] \<Longrightarrow>
   generate_final_response s = py ''No quiz answers found. Please complete the quiz.''"
  by (cases "quiz_answers s") (simp_all add: generate_final_response_def answers_of_def)

lemma final_response_text:
  assumes "answers_of s \<noteq> []"
  shows "generate_final_response s =
     py ''Quiz Completed!'' @ [10, 10] @ py ''Your Score: '' @
     str_int (int (correct_count s)) @ py ''/'' @ str_int (int (total_count s)) @
     py '' ('' @ format_2f (percentage s) @ py ''%)'' @ [10, 10] @
     performance (percentage s) @ [10, 10] @ py ''Detailed Breakdown:'' @
     concat (map breakdown_line (zip [1 ..< Suc (total_count s)] (answers_of s)))"
proof -
  obtain xs where xs: "quiz_answers s = Some xs" "xs \<noteq> []"
    using assms by (cases "quiz_answers s") (simp_all add: answers_of_def)
  have a: "answers_of s = xs"
    by (simp add: answers_of_def xs)
  show ?thesis
    unfolding final_response_unfold [OF xs] add_breakdown_concat count_correct
      percentage_def correct_count_def total_count_def a
    by simp
qed

section \<open>The answer recorder\<close>

text \<open>
  C3: for an id in range and any submitted answer, \<open>record_current_answer\<close> returns
  success with the empty error text and appends exactly one record to the stored answers
  (the empty list when the key was missing); the record holds the given id, the raw
  answer, the canonical answer of that question, and \<open>is_correct\<close> is the equality of
  the two stripped strings.
\<close>

theorem record_current_answer_appends:
  assumes "0 \<le> cid" and "cid < int (length qs)"
  shows "record_current_answer qs ans (Some cid) s =
    ((True, []),
     s\<lparr>quiz_answers := Some (answers_of s @
        [\<lparr>question_id = cid, user_answer = ans, correct_answer = answer (qs ! nat cid),
          is_correct = (strip ans = strip (answer (qs ! nat cid)))\<rparr>])\<rparr>)"
  using assms by (simp add: record_current_answer_def answers_of_def Let_def)

theorem record_current_answer_appends_witness:
  "record_current_answer [example_question] (py '' 4 '') (Some 0) fresh =
    ((True, []),
     \<lparr>current_question_id = None,
      quiz_answers = Some [\<lparr>question_id = 0, user_answer = py '' 4 '',
        correct_answer = py ''4'', is_correct = True\<rparr>],
      saves = 0\<rparr>)"
proof -
  have a: "(0::int) \<le> 0"
    by simp
  have b: "0 < int (length [example_question])"
    by simp
  show ?thesis
    using record_current_answer_appends [OF a b, of "py '' 4 ''" fresh]
    by (simp add: example_question_def fresh_def answers_of_def strip_def isspace_def
        py_simps)
qed

text \<open>
  C6: \<open>record_current_answer\<close> always returns a pair (the model has no exception
  branch, no operation of the function can raise). The result is a failure exactly when
  the id is invalid: \<open>"No active question"\<close> for \<open>None\<close> or a negative id,
  \<open>"Invalid question ID"\<close> for an id at or beyond the length of the question list, and
  success in every other case. A failure leaves the session as it was.
\<close>

theorem record_current_answer_failures:
  "(cur = None \<or> (\<exists>c. cur = Some c \<and> c < 0) \<longrightarrow>
      record_current_answer qs ans cur s = ((False, py ''No active question''), s)) \<and>
   ((\<exists>c. cur = Some c \<and> int (length qs) \<le> c) \<longrightarrow>
      record_current_answer qs ans cur s = ((False, py ''Invalid question ID''), s)) \<and>
   ((\<exists>c. cur = Some c \<and> 0 \<le> c \<and> c < int (length qs)) \<longrightarrow>
      fst (record_current_answer qs ans cur s) = (True, []))"
  by (auto simp: record_current_answer_def Let_def)

theorem record_current_answer_failures_witness:
  "record_current_answer [example_question] (py ''4'') None fresh =
     ((False, py ''No active question''), fresh) \<and>
   record_current_answer [example_question] (py ''4'') (Some (- 1)) fresh =
     ((False, py ''No active question''), fresh) \<and>
   record_current_answer [example_question] (py ''4'') (Some 1) fresh =
     ((False, py ''Invalid question ID''), fresh) \<and>
   fst (record_current_answer [example_question] (py ''4'') (Some 0) fresh) = (True, [])"
  using record_current_answer_failures [of None "[example_question]" "py ''4''" fresh]
    record_current_answer_failures [of "Some (- 1)" "[example_question]" "py ''4''" fresh]
    record_current_answer_failures [of "Some 1" "[example_question]" "py ''4''" fresh]
    record_current_answer_failures [of "Some 0" "[example_question]" "py ''4''" fresh]
  by simp

section \<open>The question fetcher\<close>

text \<open>
  C4, as the specification states it, fails below \<open>-1\<close>: the only test is
  \<open>next_question_id < len(PYTHON_QUESTION_LIST)\<close>, so a negative next id is used as a
  subscript. With one question, the id \<open>-3\<close> raises \<open>IndexError\<close>, and the id \<open>-2\<close>
  returns the last question together with the next id \<open>-1\<close>; neither is
  \<open>(None, -1)\<close>.
\<close>

theorem get_next_question_negative_id:
  "get_next_question [example_question] (Some (- 3)) = Inl IndexError \<and>
   get_next_question [example_question] (Some (- 2)) =
     Inr (Some (rendered_question example_question), - 1)"
  by (simp add: get_next_question_def getitem_def Let_def)

text \<open>
  C4, amended: for a current id that is \<open>None\<close> or at least \<open>-1\<close>,
  \<open>get_next_question\<close> takes \<open>None\<close> for \<open>-1\<close>, adds one, and returns the rendered
  question with the next id when the next id is below the length of the list, and
  \<open>(None, -1)\<close> otherwise. The rendered text is the question text, the separator and
  one numbered line per option; for the options \<open>["A", "B"]\<close> it ends in
  \<open>"Options:\n1. A\n2. B\n"\<close>.
\<close>

theorem get_next_question_result:
  assumes "cur = None \<or> (\<exists>c. cur = Some c \<and> - 1 \<le> c)"
  shows "get_next_question qs cur =
      (let next_id = (case cur of None \<Rightarrow> - 1 | Some c \<Rightarrow> c) + 1
       in if next_id < int (length qs)
          then Inr (Some (rendered_question (qs ! nat next_id)), next_id)
          else Inr (None, - 1)) \<and>
    (options q = [py ''A'', py ''B''] \<longrightarrow>
      suffix (py ''Options:'' @ [10] @ py ''1. A'' @ [10] @ py ''2. B'' @ [10])
        (rendered_question q))"
proof
  show "get_next_question qs cur =
      (let next_id = (case cur of None \<Rightarrow> - 1 | Some c \<Rightarrow> c) + 1
       in if next_id < int (length qs)
          then Inr (Some (rendered_question (qs ! nat next_id)), next_id)
          else Inr (None, - 1))"
    using assms by (auto simp: get_next_question_from get_next_question_None Let_def)
  show "options q = [py ''A'', py ''B''] \<longrightarrow>
      suffix (py ''Options:'' @ [10] @ py ''1. A'' @ [10] @ py ''2. B'' @ [10])
        (rendered_question q)"
  proof
    assume o: "options q = [py ''A'', py ''B'']"
    have "rendered_question q =
        (question_text q @ [10, 10]) @
        (py ''Options:'' @ [10] @ py ''1. A'' @ [10] @ py ''2. B'' @ [10])"
      by (simp add: rendered_question_def o option_line_def str_int_def str_nat_digit
          upt_rec py_simps)
    then show "suffix (py ''Options:'' @ [10] @ py ''1. A'' @ [10] @ py ''2. B'' @ [10])
        (rendered_question q)"
      by (metis suffixI)
  qed
qed

theorem get_next_question_result_witness:
  "get_next_question [example_question] None =
     Inr (Some (py ''2+2?'' @ [10, 10] @ py ''Options:'' @ [10] @ py ''1. 3'' @ [10] @
                py ''2. 4'' @ [10]), 0) \<and>
   get_next_question [example_question] (Some 0) = Inr (None, - 1)"
proof -
  have a: "(None :: int option) = None \<or> (\<exists>c. None = Some c \<and> - 1 \<le> c)"
    by simp
  have b: "Some (0::int) = None \<or> (\<exists>c. Some (0::int) = Some c \<and> - 1 \<le> c)"
    by simp
  show ?thesis
    using get_next_question_result [OF a, of "[example_question]"]
      get_next_question_result [OF b, of "[example_question]"]
    by (simp add: rendered_question_def example_question_def option_line_def str_int_def
        str_nat_digit upt_rec py_simps)
qed

section \<open>The dispatcher\<close>

text \<open>
  C1: when \<open>current_question_id\<close> is absent (or holds \<open>None\<close>), whatever the message,
  \<open>generate_bot_responses\<close> returns exactly two messages, the welcome message followed
  by the rendered question 0, and leaves \<open>current_question_id = 0\<close> in the saved
  session. Question 0 exists: the question list is not empty.
\<close>

theorem cold_start:
  assumes "session_get_id s = None" and "qs \<noteq> []"
  shows "generate_bot_responses qs welcome message s =
    (Inr [Some welcome, Some (rendered_question (qs ! 0))],
     save (s\<lparr>current_question_id := Some (Some 0)\<rparr>))"
  using assms by (simp add: dispatch_cold)

theorem cold_start_witness:
  "generate_bot_responses [example_question] example_welcome (py ''hello'') fresh =
    (Inr [Some (py ''Welcome''),
          Some (py ''2+2?'' @ [10, 10] @ py ''Options:'' @ [10] @ py ''1. 3'' @ [10] @
                py ''2. 4'' @ [10])],
     \<lparr>current_question_id = Some (Some 0), quiz_answers = None, saves = 1\<rparr>)"
proof -
  have a: "session_get_id fresh = None"
    by (simp add: session_get_id_def fresh_def)
  have b: "[example_question] \<noteq> []"
    by simp
  show ?thesis
    using cold_start [OF a b, of example_welcome "py ''hello''"]
    by (simp add: rendered_question_def example_question_def example_welcome_def
        option_line_def str_int_def str_nat_digit upt_rec py_simps fresh_def save_def)
qed

text \<open>
  With an empty question list the first call returns the welcome message and \<open>None\<close>,
  and stores the id \<open>-1\<close> that \<open>get_next_question\<close> returns when no question is left.
\<close>

lemma first_call_without_questions:
  "session_get_id s = None \<Longrightarrow>
   generate_bot_responses [] welcome message s =
     (Inr [Some welcome, None], save (s\<lparr>current_question_id := Some (Some (- 1))\<rparr>))"
  by (simp add: dispatch_cold)

text \<open>
  C7, as stated, fails: with \<open>current_question_id\<close> absent the dispatcher never calls
  the recorder. An answer sent to a fresh session is taken for a first message and gets
  the welcome message and question 0.
\<close>

theorem absent_id_answer_starts_quiz:
  "session_get_id fresh = None \<and>
   fst (generate_bot_responses [example_question] example_welcome (py ''4'') fresh) =
     Inr [Some example_welcome, Some (rendered_question example_question)] \<and>
   fst (generate_bot_responses [example_question] example_welcome (py ''4'') fresh) \<noteq>
     Inr [Some (py ''No active question'')]"
  by (simp add: dispatch_cold session_get_id_def fresh_def)

text \<open>
  C7, amended: with \<open>current_question_id\<close> absent, an answer sent through
  \<open>generate_bot_responses\<close> leaves \<open>quiz_answers\<close> unchanged, and, the question list
  being non-empty, the reply is exactly the welcome message followed by the rendered
  question 0, the saved session holding the id 0. \<open>"No active question"\<close> is the failure
  that \<open>record_current_answer\<close> returns for an absent id, leaving the session unchanged,
  and \<open>["No active question"]\<close> is exactly what \<open>generate_bot_responses\<close> returns, with
  the session unchanged, when the stored id is a negative integer.
\<close>

theorem no_active_question:
  "(session_get_id s = None \<longrightarrow>
      quiz_answers (snd (generate_bot_responses qs welcome message s)) = quiz_answers s \<and>
      (qs \<noteq> [] \<longrightarrow>
        generate_bot_responses qs welcome message s =
          (Inr [Some welcome, Some (rendered_question (qs ! 0))],
           save (s\<lparr>current_question_id := Some (Some 0)\<rparr>)))) \<and>
   record_current_answer qs message None s = ((False, py ''No active question''), s) \<and>
   ((\<exists>c. session_get_id s = Some c \<and> c < 0) \<longrightarrow>
      generate_bot_responses qs welcome message s =
        (Inr [Some (py ''No active question'')], s))"
proof (intro conjI impI)
  assume "session_get_id s = None"
  then show "quiz_answers (snd (generate_bot_responses qs welcome message s)) = quiz_answers s"
    by (simp add: dispatch_cold save_def)
next
  assume "session_get_id s = None" and "qs \<noteq> []"
  then show "generate_bot_responses qs welcome message s =
      (Inr [Some welcome, Some (rendered_question (qs ! 0))],
       save (s\<lparr>current_question_id := Some (Some 0)\<rparr>))"
    by (simp add: dispatch_cold)
next
  show "record_current_answer qs message None s = ((False, py ''No active question''), s)"
    by (simp add: record_current_answer_def)
next
  assume "\<exists>c. session_get_id s = Some c \<and> c < 0"
  then show "generate_bot_responses qs welcome message s =
      (Inr [Some (py ''No active question'')], s)"
    by (auto simp: dispatch_fails)
qed

theorem no_active_question_witness:
  "generate_bot_responses [example_question] example_welcome (py ''4'') fresh =
     (Inr [Some example_welcome, Some (rendered_question example_question)],
      \<lparr>current_question_id = Some (Some 0), quiz_answers = None, saves = 1\<rparr>) \<and>
   record_current_answer [example_question] (py ''4'') None fresh =
     ((False, py ''No active question''), fresh) \<and>
   generate_bot_responses [example_question] example_welcome (py ''4'')
      (fresh\<lparr>current_question_id := Some (Some (- 1))\<rparr>) =
     (Inr [Some (py ''No active question'')], fresh\<lparr>current_question_id := Some (Some (- 1))\<rparr>)"
  using no_active_question [of fresh "[example_question]" example_welcome "py ''4''"]
    no_active_question [of "fresh\<lparr>current_question_id := Some (Some (- 1))\<rparr>"
      "[example_question]" example_welcome "py ''4''"]
  by (simp add: session_get_id_def fresh_def save_def)

text \<open>
  C8, as stated, fails on the recorder-failure path: \<open>return [error]\<close> comes before
  \<open>session.save()\<close>. With one question and the stored id 1 the call returns
  \<open>["Invalid question ID"]\<close> and the session has not been saved.
\<close>

theorem failure_path_not_saved:
  "generate_bot_responses [example_question] example_welcome (py ''4'')
      (fresh\<lparr>current_question_id := Some (Some 1)\<rparr>) =
     (Inr [Some (py ''Invalid question ID'')], fresh\<lparr>current_question_id := Some (Some 1)\<rparr>) \<and>
   saves (snd (generate_bot_responses [example_question] example_welcome (py ''4'')
      (fresh\<lparr>current_question_id := Some (Some 1)\<rparr>))) = 0"
proof -
  have "session_get_id (fresh\<lparr>current_question_id := Some (Some 1)\<rparr>) = Some 1"
    by simp
  moreover have "(1::int) < 0 \<or> int (length [example_question]) \<le> 1"
    by simp
  ultimately have "generate_bot_responses [example_question] example_welcome (py ''4'')
      (fresh\<lparr>current_question_id := Some (Some 1)\<rparr>) =
     (Inr [Some (py ''Invalid question ID'')], fresh\<lparr>current_question_id := Some (Some 1)\<rparr>)"
    by (simp add: dispatch_fails)
  then show ?thesis
    by (simp add: fresh_def)
qed

text \<open>
  C8, amended: no call raises; on the cold-start path, the next-question path and the
  quiz-completion path \<open>save\<close> is invoked once before the function returns; on the
  recorder-failure path (a stored id that is negative or not below the length of the
  question list) the session is returned exactly as it was, not saved.
\<close>

theorem save_on_success_paths:
  "fst (generate_bot_responses qs welcome message s) \<noteq> Inl e \<and>
   ((\<exists>c. session_get_id s = Some c \<and> (c < 0 \<or> int (length qs) \<le> c)) \<longrightarrow>
      snd (generate_bot_responses qs welcome message s) = s) \<and>
   (\<not> (\<exists>c. session_get_id s = Some c \<and> (c < 0 \<or> int (length qs) \<le> c)) \<longrightarrow>
      saves (snd (generate_bot_responses qs welcome message s)) = Suc (saves s))"
proof (intro conjI impI)
  show "fst (generate_bot_responses qs welcome message s) \<noteq> Inl e"
    by (rule dispatch_no_exception)
  show "snd (generate_bot_responses qs welcome message s) = s"
    if "\<exists>c. session_get_id s = Some c \<and> (c < 0 \<or> int (length qs) \<le> c)"
    using that by (auto simp: dispatch_fails)
  show "saves (snd (generate_bot_responses qs welcome message s)) = Suc (saves s)"
    if h: "\<not> (\<exists>c. session_get_id s = Some c \<and> (c < 0 \<or> int (length qs) \<le> c))"
  proof (cases "session_get_id s")
    case None
    then show ?thesis
      by (simp add: dispatch_cold)
  next
    case (Some c)
    with h have "0 \<le> c" and "c < int (length qs)"
      by auto
    then show ?thesis
      using Some by (simp add: dispatch_answer Let_def)
  qed
qed

theorem save_on_success_paths_witness:
  "snd (generate_bot_responses [example_question] example_welcome (py ''4'')
      (fresh\<lparr>current_question_id := Some (Some 1)\<rparr>)) =
     fresh\<lparr>current_question_id := Some (Some 1)\<rparr> \<and>
   saves (snd (generate_bot_responses [example_question] example_welcome (py ''4'') fresh)) = 1 \<and>
   saves (snd (generate_bot_responses [example_question] example_welcome (py ''4'')
      (fresh\<lparr>current_question_id := Some (Some 0)\<rparr>))) = 1"
  using save_on_success_paths [of "[example_question]" example_welcome "py ''4''"
      "fresh\<lparr>current_question_id := Some (Some 1)\<rparr>"]
    save_on_success_paths [of "[example_question]" example_welcome "py ''4''" fresh]
    save_on_success_paths [of "[example_question]" example_welcome "py ''4''"
      "fresh\<lparr>current_question_id := Some (Some 0)\<rparr>"]
  by (simp add: session_get_id_def fresh_def)

section \<open>Invariants of a conversation\<close>

text \<open>
  C9, as stated, fails for an empty question list: the first call stores the id \<open>-1\<close>
  that \<open>get_next_question\<close> returns when no question is left, and \<open>-1\<close> is neither
  \<open>None\<close> nor an index.
\<close>

theorem no_questions_stores_sentinel:
  "session_get_id (snd (run [] example_welcome [py ''hello''] fresh)) = Some (- 1) \<and>
   \<not> id_valid [] (snd (run [] example_welcome [py ''hello''] fresh))"
proof -
  have "session_get_id fresh = None"
    by (simp add: session_get_id_def fresh_def)
  then have "generate_bot_responses [] example_welcome (py ''hello'') fresh =
      (Inr [Some example_welcome, None], save (fresh\<lparr>current_question_id := Some (Some (- 1))\<rparr>))"
    by (rule first_call_without_questions)
  then show ?thesis
    by (simp add: id_valid_def)
qed

text \<open>
  C9, amended: for a non-empty question list, in every session state reached from a
  session without a current question, the fresh session among them, by any sequence of
  calls of \<open>generate_bot_responses\<close>, the stored \<open>current_question_id\<close> is absent,
  \<open>None\<close>, or an index of the question list.
\<close>

theorem reachable_id_valid:
  assumes "qs \<noteq> []" and "session_get_id s = None"
  shows "id_valid qs (snd (run qs welcome ms s))"
proof -
  have "id_valid qs s"
    using assms(2) by (simp add: id_valid_def)
  with assms(1) show ?thesis
    by (rule run_id_valid)
qed

theorem reachable_id_valid_witness:
  "id_valid [example_question] (snd (run [example_question] example_welcome
      [py ''hello'', py ''4'', py ''again''] fresh)) \<and>
   id_valid [example_question] (snd (run [example_question] example_welcome
      [py ''hello'', py ''4''] fresh))"
proof -
  have a: "[example_question] \<noteq> []"
    by simp
  have b: "session_get_id fresh = None"
    by (simp add: session_get_id_def fresh_def)
  show ?thesis
    using reachable_id_valid [OF a b, of example_welcome "[py ''hello'', py ''4'', py ''again'']"]
      reachable_id_valid [OF a b, of example_welcome "[py ''hello'', py ''4'']"]
    by simp
qed

text \<open>
  C10: no operation removes or changes a stored record. The records before a call of
  \<open>record_current_answer\<close>, before a call of \<open>generate_bot_responses\<close> and before any
  sequence of calls, quiz passes that end and start again included, are a prefix of the
  records after it, so the number of records never decreases.
\<close>

theorem answers_only_appended:
  "prefix (answers_of s) (answers_of (snd (record_current_answer qs ans cur s))) \<and>
   prefix (answers_of s) (answers_of (snd (generate_bot_responses qs welcome ans s))) \<and>
   prefix (answers_of s) (answers_of (snd (run qs welcome ms s))) \<and>
   length (answers_of s) \<le> length (answers_of (snd (run qs welcome ms s)))"
proof (intro conjI)
  show "prefix (answers_of s) (answers_of (snd (record_current_answer qs ans cur s)))"
    by (auto simp: record_current_answer_def answers_of_def Let_def split: option.splits)
  show "prefix (answers_of s) (answers_of (snd (generate_bot_responses qs welcome ans s)))"
    by (rule dispatch_answers_prefix)
  show "prefix (answers_of s) (answers_of (snd (run qs welcome ms s)))"
    by (rule run_answers_prefix)
  then show "length (answers_of s) \<le> length (answers_of (snd (run qs welcome ms s)))"
    by (rule prefix_length_le)
qed

section \<open>A whole quiz pass\<close>

text \<open>
  C2: for a question list of length \<open>N \<ge> 1\<close> and a session without a current
  question, \<open>N + 1\<close> calls, the last \<open>N\<close> of them carrying the answers \<open>ms\<close>, record
  one answer per question, and the last call returns exactly one message, the scored
  summary of the stored answers (it starts with \<open>"Quiz Completed!"\<close>), and leaves
  \<open>current_question_id\<close> holding \<open>None\<close>.
\<close>

theorem full_pass:
  assumes "qs \<noteq> []" and "session_get_id s = None" and "length ms = length qs"
  shows "length (fst (run qs welcome (m0 # ms) s)) = length qs + 1 \<and>
    last (fst (run qs welcome (m0 # ms) s)) =
      Inr [Some (generate_final_response (snd (run qs welcome (m0 # ms) s)))] \<and>
    prefix (py ''Quiz Completed!'')
      (generate_final_response (snd (run qs welcome (m0 # ms) s))) \<and>
    current_question_id (snd (run qs welcome (m0 # ms) s)) = Some None \<and>
    answers_of (snd (run qs welcome (m0 # ms) s)) =
      answers_of s @ map (\<lambda>(i, m). answer_record qs i m) (zip [0 ..< length qs] ms)"
proof -
  from assms(1,3) have "ms \<noteq> []"
    by auto
  then obtain ms' ml where ms: "ms = ms' @ [ml]"
    by (metis rev_exhaust)
  with assms(3) have len: "Suc (length ms') = length qs"
    by simp
  let ?s1 = "save (s\<lparr>current_question_id := Some (Some 0)\<rparr>)"
  let ?s2 = "snd (run qs welcome ms' ?s1)"
  let ?recs = "map (\<lambda>(i, m). answer_record qs i m) (zip [0 ..< length ms'] ms')"
  let ?s3 = "save (?s2\<lparr>quiz_answers := Some (answers_of ?s2 @ [answer_record qs (length ms') ml]),
      current_question_id := Some None\<rparr>)"
  have first: "generate_bot_responses qs welcome m0 s =
      (Inr [Some welcome, Some (rendered_question (qs ! 0))], ?s1)"
    using assms(1,2) by (simp add: dispatch_cold)
  have a: "session_get_id ?s1 = Some (int 0)"
    by simp
  have b: "0 + length ms' < length qs"
    using len by simp
  note rp = run_in_progress [OF a b]
  from rp [of "welcome"]
  have id2: "session_get_id ?s2 = Some (int (length ms'))"
    and ans2: "answers_of ?s2 = answers_of s @ ?recs"
    by simp_all
  have final: "generate_bot_responses qs welcome ml ?s2 =
      (Inr [Some (generate_final_response
              (?s2\<lparr>quiz_answers := Some (answers_of ?s2 @ [answer_record qs (length ms') ml])\<rparr>))],
       ?s3)"
    using id2 len by (rule pass_completes)
  have run: "run qs welcome (m0 # ms) s =
      (Inr [Some welcome, Some (rendered_question (qs ! 0))] # fst (run qs welcome ms' ?s1) @
       [Inr [Some (generate_final_response
              (?s2\<lparr>quiz_answers := Some (answers_of ?s2 @ [answer_record qs (length ms') ml])\<rparr>))]],
       ?s3)"
    by (simp add: ms first run_append final)
  have ans3: "answers_of ?s3 = answers_of s @ ?recs @ [answer_record qs (length ms') ml]"
    by (simp add: ans2)
  have "zip [0 ..< length qs] ms = zip [0 ..< length ms'] ms' @ [(length ms', ml)]"
    unfolding len [symmetric] ms by simp
  then have recs: "map (\<lambda>(i, m). answer_record qs i m) (zip [0 ..< length qs] ms) =
      ?recs @ [answer_record qs (length ms') ml]"
    by simp
  have same: "generate_final_response
      (?s2\<lparr>quiz_answers := Some (answers_of ?s2 @ [answer_record qs (length ms') ml])\<rparr>) =
      generate_final_response ?s3"
    by (rule final_response_answers_of) simp
  have "answers_of ?s3 \<noteq> []"
    by (simp add: ans3)
  then have header: "prefix (py ''Quiz Completed!'') (generate_final_response ?s3)"
    by (rule final_response_header)
  show ?thesis
    unfolding run fst_conv snd_conv recs using same header ans3 len
    by simp
qed

theorem full_pass_witness:
  "length (fst (run [example_question] example_welcome [py ''hello'', py ''4''] fresh)) = 2 \<and>
   last (fst (run [example_question] example_welcome [py ''hello'', py ''4''] fresh)) =
     Inr [Some (generate_final_response
       (snd (run [example_question] example_welcome [py ''hello'', py ''4''] fresh)))] \<and>
   current_question_id (snd (run [example_question] example_welcome [py ''hello'', py ''4''] fresh)) =
     Some None \<and>
   answers_of (snd (run [example_question] example_welcome [py ''hello'', py ''4''] fresh)) =
     [\<lparr>question_id = 0, user_answer = py ''4'', correct_answer = py ''4'', is_correct = True\<rparr>]"
proof -
  have a: "[example_question] \<noteq> []"
    by simp
  have b: "session_get_id fresh = None"
    by (simp add: session_get_id_def fresh_def)
  have c: "length [py ''4''] = length [example_question]"
    by simp
  show ?thesis
    using full_pass [OF a b c, of example_welcome "py ''hello''"]
    by (simp add: answer_record_def example_question_def answers_of_def fresh_def)
qed

section \<open>The scorer\<close>

lemma counts_range: "correct_count s \<le> total_count s"
  by (simp add: correct_count_def total_count_def)

lemma score_percentage_none_correct: "score_percentage 0 t = 0"
  by (simp add: score_percentage_def fl_def)

lemma format_2f_values:
  "format_2f 100 = [49, 48, 48, 46, 48, 48]"
  "format_2f 0 = [48, 46, 48, 48]"
proof -
  have "str_nat 100 = [49, 48, 48]" and "str_nat 0 = [48]"
    by code_simp+
  then show "format_2f 100 = [49, 48, 48, 46, 48, 48]" and "format_2f 0 = [48, 46, 48, 48]"
    by (simp_all add: format_2f_def round_half_even_def)
qed

text \<open>
  C5, as stated, fails where it says that the percentage equals
  \<open>100 * correct_count / total\<close>: the value is the double computed by
  \<open>(correct_answers / total_questions) * 100\<close>, rounded after the division and again after
  the product. For 1 of 3 it is neither \<open>100 / 3\<close> nor the double that
  \<open>100 * 1 / 3\<close> gives, and for 23 of 160 the score line reads
  \<open>14.37%\<close> although \<open>100 * 23 / 160 = 14.375\<close>.
\<close>

theorem score_not_exact:
  "score_percentage 1 3 \<noteq> 100 * 1 / 3 \<and>
   score_percentage 1 3 \<noteq> fl (fl (100 * 1) / 3) \<and>
   prefix (py ''Quiz Completed!'' @ [10, 10] @ py ''Your Score: 23/160 (14.37%)'')
     (generate_final_response example_long_session) \<and>
   (100 * 23 / 160 :: rat) = 14375 / 1000"
proof (intro conjI)
  have one_of_three: "score_percentage 1 3 = 2345624805922133 / 70368744177664"
    by code_simp
  then show "score_percentage 1 3 \<noteq> 100 * 1 / 3"
    by simp
  have "fl (100 / 3) = 4691249611844267 / 140737488355328"
    by code_simp
  then show "score_percentage 1 3 \<noteq> fl (fl (100 * 1) / 3)"
    using one_of_three by (simp add: fl_100)
  have a: "answers_of example_long_session \<noteq> []"
    by (simp add: answers_of_def example_long_session_def)
  have c: "correct_count example_long_session = 23"
    by (simp add: correct_count_def answers_of_def example_long_session_def
        example_right_def example_wrong_def)
  have t: "total_count example_long_session = 160"
    by (simp add: total_count_def answers_of_def example_long_session_def)
  have f: "format_2f (score_percentage 23 160) = [49, 52, 46, 51, 55]"
    by code_simp
  have n: "str_int 23 = [50, 51]" "str_int 160 = [49, 54, 48]"
    by code_simp+
  have "generate_final_response example_long_session =
      (py ''Quiz Completed!'' @ [10, 10] @ py ''Your Score: 23/160 (14.37%)'') @
      ([10, 10] @ performance (percentage example_long_session) @ [10, 10] @
       py ''Detailed Breakdown:'' @
       concat (map breakdown_line (zip [1 ..< Suc (total_count example_long_session)]
         (answers_of example_long_session))))"
    unfolding final_response_text [OF a] percentage_def c t
    by (simp add: f n py_simps)
  then show "prefix (py ''Quiz Completed!'' @ [10, 10] @ py ''Your Score: 23/160 (14.37%)'')
      (generate_final_response example_long_session)"
    by (metis prefixI)
  show "(100 * 23 / 160 :: rat) = 14375 / 1000"
    by simp
qed

text \<open>
  C5, amended: \<open>generate_final_response\<close> returns the fixed no-answers message when
  \<open>quiz_answers\<close> is absent or empty. Otherwise it returns the header, the score line with
  \<open>correct_count/total\<close> and the percentage formatted with two decimals, the remark chosen by
  the thresholds (exactly 100, at least 80, at least 60, otherwise), and one breakdown line
  per record, in order, with the glyph and the raw answer. The percentage is the double
  computed by \<open>(correct / total) * 100\<close>: it lies between 0 and 100 and differs from
  \<open>100 * correct_count / total\<close> by at most \<open>100 / 2\<^sup>5\<^sup>2\<close>; up to \<open>2\<^sup>4\<^sup>8\<close> records it
  is 100 exactly when every answer is correct, and it reaches 80 and 60 exactly when
  \<open>100 * correct_count / total\<close> does.
\<close>

theorem final_response_summary:
  "(answers_of s = [] \<longrightarrow>
      generate_final_response s = py ''No quiz answers found. Please complete the quiz.'') \<and>
   (answers_of s \<noteq> [] \<longrightarrow>
      generate_final_response s =
        py ''Quiz Completed!'' @ [10, 10] @ py ''Your Score: '' @
        str_int (int (correct_count s)) @ py ''/'' @ str_int (int (total_count s)) @
        py '' ('' @ format_2f (percentage s) @ py ''%)'' @ [10, 10] @
        (if percentage s = 100 then py ''Excellent! Perfect score!''
         else if 80 \<le> percentage s then
           py ''Great job! You have a strong understanding of Python.''
         else if 60 \<le> percentage s then
           py ''Good effort. You're on the right track with Python.''
         else py ''Keep studying. There's room for improvement in your Python skills.'') @
        [10, 10] @ py ''Detailed Breakdown:'' @
        concat (map breakdown_line (zip [1 ..< Suc (total_count s)] (answers_of s))) \<and>
      0 \<le> percentage s \<and> percentage s \<le> 100 \<and>
      \<bar>percentage s - 100 * of_nat (correct_count s) / of_nat (total_count s)\<bar>
        \<le> 100 / 2 ^ 52 \<and>
      (total_count s \<le> 2 ^ 48 \<longrightarrow>
        (percentage s = 100 \<longleftrightarrow> correct_count s = total_count s) \<and>
        (80 \<le> percentage s \<longleftrightarrow> 80 * total_count s \<le> 100 * correct_count s) \<and>
        (60 \<le> percentage s \<longleftrightarrow> 60 * total_count s \<le> 100 * correct_count s)))"
proof (intro conjI impI)
  show "generate_final_response s = py ''No quiz answers found. Please complete the quiz.''"
    if "answers_of s = []"
    using that by (rule final_response_no_answers)
next
  assume ne: "answers_of s \<noteq> []"
  have c0: "0 \<le> int (correct_count s)"
    by simp
  have ct: "int (correct_count s) \<le> int (total_count s)"
    using counts_range [of s] by simp
  have t0: "0 < int (total_count s)"
    using ne by (simp add: total_count_def)
  show "generate_final_response s =
        py ''Quiz Completed!'' @ [10, 10] @ py ''Your Score: '' @
        str_int (int (correct_count s)) @ py ''/'' @ str_int (int (total_count s)) @
        py '' ('' @ format_2f (percentage s) @ py ''%)'' @ [10, 10] @
        (if percentage s = 100 then py ''Excellent! Perfect score!''
         else if 80 \<le> percentage s then
           py ''Great job! You have a strong understanding of Python.''
         else if 60 \<le> percentage s then
           py ''Good effort. You're on the right track with Python.''
         else py ''Keep studying. There's room for improvement in your Python skills.'') @
        [10, 10] @ py ''Detailed Breakdown:'' @
        concat (map breakdown_line (zip [1 ..< Suc (total_count s)] (answers_of s)))"
    unfolding final_response_text [OF ne] performance_def ..
  show "0 \<le> percentage s"
    unfolding percentage_def using c0 ct t0 by (rule score_percentage_range(1))
  show "percentage s \<le> 100"
    unfolding percentage_def using c0 ct t0 by (rule score_percentage_range(2))
  show "\<bar>percentage s - 100 * of_nat (correct_count s) / of_nat (total_count s)\<bar>
        \<le> 100 / 2 ^ 52"
    using score_percentage_error [OF c0 ct t0] by (simp add: percentage_def)
next
  assume ne: "answers_of s \<noteq> []" and small: "total_count s \<le> 2 ^ 48"
  have c0: "0 \<le> int (correct_count s)"
    by simp
  have ct: "int (correct_count s) \<le> int (total_count s)"
    using counts_range [of s] by simp
  have t0: "0 < int (total_count s)"
    using ne by (simp add: total_count_def)
  have "int (total_count s) \<le> int (2 ^ 48)"
    using small by (simp only: of_nat_le_iff)
  then have t1: "int (total_count s) \<le> 2 ^ 48"
    by simp
  note th = score_thresholds [OF c0 ct t0 t1]
  show "percentage s = 100 \<longleftrightarrow> correct_count s = total_count s"
    using th(1) by (simp add: percentage_def)
  show "80 \<le> percentage s \<longleftrightarrow> 80 * total_count s \<le> 100 * correct_count s"
    unfolding percentage_def th(2) by linarith
  show "60 \<le> percentage s \<longleftrightarrow> 60 * total_count s \<le> 100 * correct_count s"
    unfolding percentage_def th(3) by linarith
qed

theorem final_response_summary_witness:
  "generate_final_response fresh = py ''No quiz answers found. Please complete the quiz.'' \<and>
   generate_final_response
     \<lparr>current_question_id = Some (Some 0), quiz_answers = Some [example_right], saves = 1\<rparr> =
     py ''Quiz Completed!'' @ [10, 10] @ py ''Your Score: 1/1 (100.00%)'' @ [10, 10] @
     py ''Excellent! Perfect score!'' @ [10, 10] @ py ''Detailed Breakdown:'' @ [10] @
     py ''Q1: '' @ [10003] @ py '' Your answer: 4'' \<and>
   generate_final_response
     \<lparr>current_question_id = Some (Some 0), quiz_answers = Some [example_wrong], saves = 1\<rparr> =
     py ''Quiz Completed!'' @ [10, 10] @ py ''Your Score: 0/1 (0.00%)'' @ [10, 10] @
     py ''Keep studying. There's room for improvement in your Python skills.'' @ [10, 10] @
     py ''Detailed Breakdown:'' @ [10] @ py ''Q1: '' @ [10007] @ py '' Your answer: 3''"
proof -
  have n: "str_int 1 = [49]" "str_int 0 = [48]"
    by code_simp+
  have p: "score_percentage 1 1 = 100"
    by (simp add: score_percentage_all_correct)
  show ?thesis
    using final_response_summary [of fresh]
      final_response_summary [of "\<lparr>current_question_id = Some (Some 0),
        quiz_answers = Some [example_right], saves = 1\<rparr>"]
      final_response_summary [of "\<lparr>current_question_id = Some (Some 0),
        quiz_answers = Some [example_wrong], saves = 1\<rparr>"]
    by (simp add: answers_of_def fresh_def correct_count_def total_count_def percentage_def
        example_right_def example_wrong_def breakdown_line_def n p
        score_percentage_none_correct format_2f_values py_simps)
qed

end
